theory Spec2Isabelle
  imports Main "HOL-Library.Word" "HOL-Library.Multiset"
begin

section \<open>Collaborator types of the work queue\<close>

text \<open>
  \<^verbatim>\<open>size_t\<close> is the unsigned 64-bit integer of the platform the server is built for.
  \<^verbatim>\<open>container.size()\<close> yields a \<^verbatim>\<open>size_t\<close>.
\<close>

type_synonym size_t = "64 word"

definition size_of :: "'a list \<Rightarrow> size_t" where
  "size_of xs = of_nat (length xs)"

text \<open>
  Modelled from the spec: \<^verbatim>\<open>src/core/status.h\<close> is not among the source files. The
  spec asks for a tagged result that tells apart at least success, an invalid argument
  and unavailability; a status carries its code and a message.
\<close>

datatype Code = SUCCESS | INVALID_ARG | UNAVAILABLE

datatype Status = Status Code string

definition Success :: Status where
  "Success = Status SUCCESS []"

fun StatusCode :: "Status \<Rightarrow> Code" where
  "StatusCode (Status c m) = c"

text \<open>
  A \<^verbatim>\<open>std::function\<close> object is either empty (it compares equal to \<^verbatim>\<open>nullptr\<close>) or holds
  a callable. The callables themselves are opaque: they are values of a type parameter.
\<close>

datatype 'a std_function = nullptr | Fn 'a

text \<open>
  Modelled from the spec: \<^verbatim>\<open>src/core/sync_queue.h\<close> is not among the source files. The
  spec's contract is a FIFO with a non-blocking \<^verbatim>\<open>Put\<close> at the back, a \<^verbatim>\<open>Get\<close> that takes the
  front item and blocks while there is none (\<open>None\<close> here), and an emptiness check.
\<close>

type_synonym 'a SyncQueue = "'a list"

definition Put :: "'a SyncQueue \<Rightarrow> 'a \<Rightarrow> 'a SyncQueue" where
  "Put q x = q @ [x]"

definition Empty :: "'a SyncQueue \<Rightarrow> bool" where
  "Empty q = (q = [])"

fun Get :: "'a SyncQueue \<Rightarrow> ('a \<times> 'a SyncQueue) option" where
  "Get [] = None"
| "Get (x # q) = Some (x, q)"

text \<open>
  A worker thread object. Every \<^verbatim>\<open>new std::thread\<close> is an object of its own; the model
  tells the objects apart by the loop counter of \<^verbatim>\<open>Initialize\<close> at which they were made.
\<close>

datatype thread = Thread size_t

section \<open>The singleton's state\<close>

text \<open>
  The data members of \<^verbatim>\<open>AsyncWorkQueue\<close> (the source's names end in an underscore). The
  mutex \<^verbatim>\<open>mtx_\<close> has no state of its own in a sequential run.
\<close>

record ('t, 'b) AsyncWorkQueue =
  worker_threads :: "thread list"
  task_queue :: "'t std_function SyncQueue"
  bundled_task_queue :: "'b list"

text \<open>The singleton as \<^verbatim>\<open>GetSingleton\<close> first constructs it: all members empty.\<close>

definition singleton :: "('t, 'b) AsyncWorkQueue" where
  "singleton = \<lparr>worker_threads = [], task_queue = [], bundled_task_queue = []\<rparr>"

text \<open>
  What a callable does when it is invoked is not the work queue's code. It is a parameter
  of the model: any function from the singleton's state to the singleton's state, so a
  callable may add tasks or bundled tasks of its own. The invocation is taken to return;
  a callable that throws is outside the model. Every function below that invokes
  callables also returns the list of the invocations it made, in order.
\<close>

type_synonym ('t, 'b) task_body =
  "'t \<Rightarrow> ('t, 'b) AsyncWorkQueue \<Rightarrow> ('t, 'b) AsyncWorkQueue"

type_synonym ('t, 'b) bundled_body =
  "'b \<Rightarrow> size_t \<Rightarrow> ('t, 'b) AsyncWorkQueue \<Rightarrow> ('t, 'b) AsyncWorkQueue"

datatype ('t, 'b) call = TaskCall 't | BundledCall 'b size_t

section \<open>Initialize and WorkerCount\<close>

text \<open>
  \<^verbatim>\<open>for (size_t cnt = 0; cnt < worker_count; cnt++) worker_threads_.push_back(new thread)\<close>
\<close>

function spawn_workers :: "size_t \<Rightarrow> size_t \<Rightarrow> thread list \<Rightarrow> thread list" where
  "spawn_workers cnt worker_count ws =
     (if cnt < worker_count
      then spawn_workers (cnt + 1) worker_count (ws @ [Thread cnt])
      else ws)"
  by pat_completeness auto
termination
proof (relation "measure (\<lambda>(cnt, worker_count, ws). unat worker_count - unat cnt)")
  show "wf (measure (\<lambda>(cnt :: size_t, worker_count :: size_t, ws :: thread list).
          unat worker_count - unat cnt))"
    by simp
next
  fix cnt worker_count :: size_t and ws :: "thread list"
  assume lt: "cnt < worker_count"
  then have "unat (cnt + 1) = Suc (unat cnt)"
    by unat_arith
  moreover from lt have "unat cnt < unat worker_count"
    by (simp add: word_less_nat_alt)
  ultimately show "((cnt + 1, worker_count, ws @ [Thread cnt]), (cnt, worker_count, ws))
      \<in> measure (\<lambda>(cnt, worker_count, ws). unat worker_count - unat cnt)"
    by simp
qed

declare spawn_workers.simps [simp del]

definition Initialize ::
  "size_t \<Rightarrow> ('t, 'b) AsyncWorkQueue \<Rightarrow> Status \<times> ('t, 'b) AsyncWorkQueue" where
  "Initialize worker_count s =
     (if worker_count < 1
      then (Status INVALID_ARG
              (''Async work queue must be initialized with positive ''
                 @ [CHR 0x27] @ ''worker_count'' @ [CHR 0x27]), s)
      else if size_of (worker_threads s) = 0
      then (Success, s\<lparr>worker_threads := spawn_workers 0 worker_count (worker_threads s)\<rparr>)
      else (Success, s))"

definition WorkerCount :: "('t, 'b) AsyncWorkQueue \<Rightarrow> size_t" where
  "WorkerCount s = size_of (worker_threads s)"

section \<open>AddTask, AddBundledTask and the split pass\<close>

definition AddTask ::
  "'t std_function \<Rightarrow> ('t, 'b) AsyncWorkQueue \<Rightarrow> Status \<times> ('t, 'b) AsyncWorkQueue" where
  "AddTask task s =
     (if size_of (worker_threads s) = 0
      then (Status UNAVAILABLE
              ''Async work queue must be initialized before adding task'', s)
      else (Success, s\<lparr>task_queue := Put (task_queue s) task\<rparr>))"

text \<open>
  The block of \<^verbatim>\<open>SplitBundledTasks\<close> that holds \<^verbatim>\<open>mtx_\<close>: the local queue starts empty and
  is swapped with the shared one only if the shared one is not empty. The result is the
  local queue and the shared queue, in this order.
\<close>

definition swap_if_not_empty :: "'b list \<Rightarrow> 'b list \<times> 'b list" where
  "swap_if_not_empty shared =
     (let local_queue = [] in
      if shared \<noteq> [] then (shared, local_queue) else (local_queue, shared))"

text \<open>
  \<^verbatim>\<open>while (!local.empty()) { local.front()(thread_per_task); local.pop_front(); }\<close>
\<close>

fun invoke_front ::
  "('t, 'b) bundled_body \<Rightarrow> size_t \<Rightarrow> 'b list \<Rightarrow> ('t, 'b) AsyncWorkQueue
     \<Rightarrow> ('t, 'b) AsyncWorkQueue \<times> ('t, 'b) call list" where
  "invoke_front cb thread_per_task [] s = (s, [])"
| "invoke_front cb thread_per_task (f # local_queue) s =
     (case invoke_front cb thread_per_task local_queue (cb f thread_per_task s) of
        (s', calls) \<Rightarrow> (s', BundledCall f thread_per_task # calls))"

definition SplitBundledTasks ::
  "('t, 'b) bundled_body \<Rightarrow> ('t, 'b) AsyncWorkQueue
     \<Rightarrow> ('t, 'b) AsyncWorkQueue \<times> ('t, 'b) call list" where
  "SplitBundledTasks cb s =
     (case swap_if_not_empty (bundled_task_queue s) of
        (local_queue, shared) \<Rightarrow>
          (let s1 = s\<lparr>bundled_task_queue := shared\<rparr> in
           if local_queue \<noteq> []
           then (let thread_per_task =
                       max 1 (size_of (worker_threads s1) div size_of local_queue)
                 in invoke_front cb thread_per_task local_queue s1)
           else (s1, [])))"

definition AddBundledTask ::
  "('t, 'b) bundled_body \<Rightarrow> 'b \<Rightarrow> ('t, 'b) AsyncWorkQueue
     \<Rightarrow> Status \<times> ('t, 'b) AsyncWorkQueue \<times> ('t, 'b) call list" where
  "AddBundledTask cb task s =
     (if size_of (worker_threads s) = 0
      then (Status UNAVAILABLE
              ''Async work queue must be initialized before adding task'', s, [])
      else (let s1 = s\<lparr>bundled_task_queue := bundled_task_queue s @ [task]\<rparr> in
            if Empty (task_queue s1)
            then (Success, SplitBundledTasks cb s1)
            else (Success, s1, [])))"

section \<open>The worker loop and the destructor\<close>

text \<open>
  \<^verbatim>\<open>WorkThread\<close> loops until it takes an empty function off the task queue. A thread that
  finds the queue empty at \<^verbatim>\<open>Get\<close> blocks; run on its own it then never returns, which is
  the value \<open>None\<close>, as is a loop that finds a task to run for ever.
\<close>

partial_function (option) WorkThread ::
  "('t, 'b) task_body \<Rightarrow> ('t, 'b) bundled_body \<Rightarrow> ('t, 'b) AsyncWorkQueue
     \<Rightarrow> (('t, 'b) AsyncWorkQueue \<times> ('t, 'b) call list) option" where
  "WorkThread ct cb s =
     (case (if Empty (task_queue s) then SplitBundledTasks cb s else (s, [])) of
        (s1, split_calls) \<Rightarrow>
          (case Get (task_queue s1) of
             None \<Rightarrow> None
           | Some (task, q) \<Rightarrow>
               (case task of
                  Fn f \<Rightarrow>
                    Option.bind (WorkThread ct cb (ct f (s1\<lparr>task_queue := q\<rparr>)))
                      (\<lambda>(s2, calls). Some (s2, split_calls @ TaskCall f # calls))
                | nullptr \<Rightarrow> Some (s1\<lparr>task_queue := q\<rparr>, split_calls))))"

text \<open>
  \<^verbatim>\<open>for (size_t cnt = 0; cnt < worker_threads_.size(); cnt++) task_queue_.Put(nullptr)\<close>
\<close>

function put_sentinels ::
  "size_t \<Rightarrow> size_t \<Rightarrow> 't std_function SyncQueue \<Rightarrow> 't std_function SyncQueue" where
  "put_sentinels cnt n q =
     (if cnt < n then put_sentinels (cnt + 1) n (Put q nullptr) else q)"
  by pat_completeness auto
termination
proof (relation "measure (\<lambda>(cnt, n, q). unat n - unat cnt)")
  show "wf (measure (\<lambda>(cnt :: size_t, n :: size_t, q :: 't std_function SyncQueue).
          unat n - unat cnt))"
    by simp
next
  fix cnt n :: size_t and q :: "'t std_function SyncQueue"
  assume lt: "cnt < n"
  then have "unat (cnt + 1) = Suc (unat cnt)"
    by unat_arith
  moreover from lt have "unat cnt < unat n"
    by (simp add: word_less_nat_alt)
  ultimately show "((cnt + 1, n, Put q nullptr), (cnt, n, q))
      \<in> measure (\<lambda>(cnt, n, q). unat n - unat cnt)"
    by simp
qed

declare put_sentinels.simps [simp del]



section \<open>Threads running side by side\<close>

text \<open>
  The shared \<^verbatim>\<open>bundled_task_queue_\<close> is only touched inside a \<^verbatim>\<open>std::lock_guard\<close> on \<^verbatim>\<open>mtx_\<close>,
  so each guarded block is one indivisible action and a run of any number of threads is a
  sequence of such actions, in any order:
  \<^item> \<open>Push task\<close>: the guarded \<^verbatim>\<open>push_back\<close> of \<^verbatim>\<open>AddBundledTask\<close>;
  \<^item> \<open>Swap\<close>: the guarded block of \<^verbatim>\<open>SplitBundledTasks\<close>; it starts a split pass, which gets
    a local queue of its own (the passes are numbered in the order of their swaps);
  \<^item> \<open>Invoke p\<close>: one round of the \<^verbatim>\<open>while\<close> loop of split pass \<open>p\<close>, which invokes the
    front of its local queue and pops it; nothing happens if that pass has not started
    or its loop has ended.
  A callable reaches the bundled queue through \<^verbatim>\<open>AddBundledTask\<close> only (the members are
  private), so what it does there is again a sequence of these actions. The unguarded
  checks of the worker count and of the task queue only decide whether a thread pushes or
  starts a pass at all. Two lists are kept for the record: every task pushed and every
  task invoked.
\<close>

record 'b interleaving =
  shared_queue :: "'b list"
  local_queues :: "'b list list"
  enqueued :: "'b list"
  invoked :: "'b list"

definition start :: "'b interleaving" where
  "start = \<lparr>shared_queue = [], local_queues = [], enqueued = [], invoked = []\<rparr>"

datatype 'b action = Push 'b | Swap | Invoke nat

fun exec :: "'b action \<Rightarrow> 'b interleaving \<Rightarrow> 'b interleaving" where
  "exec (Push task) c =
     c\<lparr>shared_queue := shared_queue c @ [task], enqueued := enqueued c @ [task]\<rparr>"
| "exec Swap c =
     (case swap_if_not_empty (shared_queue c) of
        (local_queue, shared) \<Rightarrow>
          c\<lparr>shared_queue := shared, local_queues := local_queues c @ [local_queue]\<rparr>)"
| "exec (Invoke p) c =
     (if p < length (local_queues c)
      then (case local_queues c ! p of
              [] \<Rightarrow> c
            | f # local_queue \<Rightarrow>
                c\<lparr>local_queues := (local_queues c)[p := local_queue],
                  invoked := invoked c @ [f]\<rparr>)
      else c)"

fun run :: "'b action list \<Rightarrow> 'b interleaving \<Rightarrow> 'b interleaving" where
  "run [] c = c"
| "run (a # schedule) c = run schedule (exec a c)"

text \<open>
  Every task pushed so far is in exactly one place: still in the shared queue, in the
  local queue of one split pass, or invoked.
\<close>

definition conserved :: "'b interleaving \<Rightarrow> bool" where
  "conserved c \<longleftrightarrow>
     mset (enqueued c)
       = mset (shared_queue c) + mset (concat (local_queues c)) + mset (invoked c)"

section \<open>Sizes and counting loops\<close>

lemma one_le_size_t: "1 \<le> (n :: size_t) \<longleftrightarrow> n \<noteq> 0"
  by (simp add: word_le_less_eq) (metis word_less_1 not_less word_le_less_eq)



lemma length_spawn_workers:
  "cnt \<le> worker_count \<Longrightarrow>
   length (spawn_workers cnt worker_count ws) = length ws + (unat worker_count - unat cnt)"
proof (induction cnt worker_count ws rule: spawn_workers.induct)
  case (1 cnt worker_count ws)
  show ?case
  proof (cases "cnt < worker_count")
    case True
    then have suc: "unat (cnt + 1) = Suc (unat cnt)"
      by unat_arith
    from True have le: "cnt + 1 \<le> worker_count"
      by (rule inc_le)
    from True have "unat cnt < unat worker_count"
      by (simp add: word_less_nat_alt)
    with "1.IH" [OF True le] suc True show ?thesis
      by (simp add: spawn_workers.simps [of cnt])
  next
    case False
    with "1.prems" have "cnt = worker_count"
      by simp
    then show ?thesis
      by (simp add: spawn_workers.simps [of worker_count])
  qed
qed

lemma size_of_spawn_workers: "size_of (spawn_workers 0 worker_count []) = worker_count"
  using length_spawn_workers [of 0 worker_count "[]"] by (simp add: size_of_def)

lemma put_sentinels_replicate:
  "cnt \<le> n \<Longrightarrow> put_sentinels cnt n q = q @ replicate (unat n - unat cnt) nullptr"
proof (induction cnt n q rule: put_sentinels.induct)
  case (1 cnt n q)
  show ?case
  proof (cases "cnt < n")
    case True
    then have suc: "unat (cnt + 1) = Suc (unat cnt)"
      by unat_arith
    from True have le: "cnt + 1 \<le> n"
      by (rule inc_le)
    from True have "unat cnt < unat n"
      by (simp add: word_less_nat_alt)
    then have "unat n - unat cnt = Suc (unat n - Suc (unat cnt))"
      by simp
    with "1.IH" [OF True le] suc True show ?thesis
      by (simp add: put_sentinels.simps [of cnt] Put_def replicate_append_same)
  next
    case False
    with "1.prems" have "cnt = n"
      by simp
    then show ?thesis
      by (simp add: put_sentinels.simps [of n])
  qed
qed


section \<open>Initialize\<close>

lemma WorkerCount_Initialize:
  "worker_threads s = [] \<Longrightarrow> n \<noteq> 0 \<Longrightarrow> WorkerCount (snd (Initialize n s)) = n"
  using size_of_spawn_workers [of n] by (simp add: Initialize_def WorkerCount_def size_of_def)

lemma threads_Initialize:
  "worker_threads s = [] \<Longrightarrow> n \<noteq> 0 \<Longrightarrow>
   length (worker_threads (snd (Initialize n s))) = unat n"
  using length_spawn_workers [of 0 n "[]"] by (simp add: Initialize_def size_of_def)

text \<open>
  C4: for every \<open>n \<ge> 1\<close>, \<^verbatim>\<open>Initialize(n)\<close> on a work queue without workers succeeds and
  starts exactly \<open>n\<close> threads, so \<^verbatim>\<open>WorkerCount()\<close> is \<open>n\<close>; a later \<^verbatim>\<open>Initialize(m)\<close> with
  \<open>m \<ge> 1\<close> returns success and leaves the whole state as it is: no thread is started and
  \<^verbatim>\<open>WorkerCount()\<close> is still \<open>n\<close>, whatever \<open>m\<close> is.
\<close>

theorem Initialize_once:
  assumes "worker_threads s = []" and "1 \<le> n" and "1 \<le> m"
  shows "fst (Initialize n s) = Success
    \<and> length (worker_threads (snd (Initialize n s))) = unat n
    \<and> WorkerCount (snd (Initialize n s)) = n
    \<and> Initialize m (snd (Initialize n s)) = (Success, snd (Initialize n s))
    \<and> WorkerCount (snd (Initialize m (snd (Initialize n s)))) = n"
proof -
  from assms(2) have n0: "n \<noteq> 0"
    by (simp add: one_le_size_t)
  from assms(3) have m0: "m \<noteq> 0"
    by (simp add: one_le_size_t)
  from assms(1) n0 have wc: "WorkerCount (snd (Initialize n s)) = n"
    by (rule WorkerCount_Initialize)
  from assms(1) n0 have len: "length (worker_threads (snd (Initialize n s))) = unat n"
    by (rule threads_Initialize)
  from n0 have ok: "fst (Initialize n s) = Success"
    by (simp add: Initialize_def)
  from wc n0 m0
  have again: "Initialize m (snd (Initialize n s)) = (Success, snd (Initialize n s))"
    by (simp add: Initialize_def [of m] WorkerCount_def)
  from ok len wc again show ?thesis
    by simp
qed

theorem Initialize_once_witness:
  "worker_threads (singleton :: (nat, nat) AsyncWorkQueue) = []
   \<and> (1 :: size_t) \<le> 4 \<and> (1 :: size_t) \<le> 2
   \<and> fst (Initialize 4 (singleton :: (nat, nat) AsyncWorkQueue)) = Success
   \<and> length (worker_threads (snd (Initialize 4 (singleton :: (nat, nat) AsyncWorkQueue)))) = 4
   \<and> WorkerCount (snd (Initialize 4 (singleton :: (nat, nat) AsyncWorkQueue))) = 4
   \<and> WorkerCount (snd (Initialize 2
        (snd (Initialize 4 (singleton :: (nat, nat) AsyncWorkQueue))))) = 4"
  using Initialize_once [of "singleton :: (nat, nat) AsyncWorkQueue" 4 2]
  by (simp add: singleton_def)

text \<open>
  C5: a \<^verbatim>\<open>worker_count\<close> below 1 (for the unsigned \<^verbatim>\<open>size_t\<close> that is the value 0 and no
  other) makes \<^verbatim>\<open>Initialize\<close> fail with \<^verbatim>\<open>INVALID_ARG\<close>; the state is what it was, no thread is
  started, and on a work queue that had no workers \<^verbatim>\<open>WorkerCount()\<close> is still 0.
\<close>

theorem Initialize_invalid:
  assumes "worker_count < 1"
  shows "worker_count = 0
    \<and> StatusCode (fst (Initialize worker_count s)) = INVALID_ARG
    \<and> snd (Initialize worker_count s) = s
    \<and> WorkerCount (snd (Initialize worker_count (singleton :: ('t, 'b) AsyncWorkQueue))) = 0"
  using assms by (simp add: Initialize_def WorkerCount_def singleton_def size_of_def)

theorem Initialize_invalid_witness:
  "(0 :: size_t) < 1
   \<and> StatusCode (fst (Initialize 0 (singleton :: (nat, nat) AsyncWorkQueue))) = INVALID_ARG
   \<and> snd (Initialize 0 (singleton :: (nat, nat) AsyncWorkQueue)) = singleton
   \<and> WorkerCount (snd (Initialize 0 (singleton :: (nat, nat) AsyncWorkQueue))) = 0"
  using Initialize_invalid [of 0 "singleton :: (nat, nat) AsyncWorkQueue"]
  by simp

text \<open>
  C10: whatever \<^verbatim>\<open>worker_count\<close> and the state are, the status that \<^verbatim>\<open>Initialize\<close> returns is
  success or \<^verbatim>\<open>INVALID_ARG\<close>, never \<^verbatim>\<open>UNAVAILABLE\<close>.
\<close>

theorem Initialize_codes:
  "StatusCode (fst (Initialize worker_count s)) \<in> {SUCCESS, INVALID_ARG}
   \<and> StatusCode (fst (Initialize worker_count s)) \<noteq> UNAVAILABLE"
  by (simp add: Initialize_def Success_def)

theorem Initialize_codes_witness:
  "StatusCode (fst (Initialize 0 (singleton :: (nat, nat) AsyncWorkQueue))) = INVALID_ARG
   \<and> StatusCode (fst (Initialize 3 (singleton :: (nat, nat) AsyncWorkQueue))) = SUCCESS"
  using Initialize_codes [of 0 "singleton :: (nat, nat) AsyncWorkQueue"]
    Initialize_codes [of 3 "singleton :: (nat, nat) AsyncWorkQueue"]
  by (simp add: Initialize_def Success_def)

section \<open>Adding tasks\<close>

text \<open>
  C6: while no workers have been started (\<^verbatim>\<open>WorkerCount()\<close> is 0), \<^verbatim>\<open>AddTask\<close> and
  \<^verbatim>\<open>AddBundledTask\<close> both fail with \<^verbatim>\<open>UNAVAILABLE\<close> and leave the state, so both queues, as it
  was, and \<^verbatim>\<open>AddBundledTask\<close> invokes nothing; otherwise \<^verbatim>\<open>AddTask\<close> returns success with the
  task put at the back of the task queue and nothing else changed.
\<close>

theorem add_unavailable:
  "(WorkerCount s = 0 \<longrightarrow>
      StatusCode (fst (AddTask task s)) = UNAVAILABLE \<and> snd (AddTask task s) = s
      \<and> StatusCode (fst (AddBundledTask cb btask s)) = UNAVAILABLE
      \<and> snd (AddBundledTask cb btask s) = (s, []))
   \<and> (WorkerCount s \<noteq> 0 \<longrightarrow>
      AddTask task s = (Success, s\<lparr>task_queue := task_queue s @ [task]\<rparr>))"
  by (simp add: AddTask_def AddBundledTask_def WorkerCount_def Put_def)

theorem add_unavailable_witness:
  "WorkerCount (singleton :: (nat, nat) AsyncWorkQueue) = 0
   \<and> StatusCode (fst (AddTask (Fn 7) (singleton :: (nat, nat) AsyncWorkQueue))) = UNAVAILABLE
   \<and> snd (AddTask (Fn 7) (singleton :: (nat, nat) AsyncWorkQueue)) = singleton
   \<and> StatusCode (fst (AddBundledTask (\<lambda>f n s. s) 8 (singleton :: (nat, nat) AsyncWorkQueue)))
       = UNAVAILABLE
   \<and> snd (AddBundledTask (\<lambda>f n s. s) 8 (singleton :: (nat, nat) AsyncWorkQueue))
       = (singleton, [])
   \<and> WorkerCount \<lparr>worker_threads = [Thread 0], task_queue = [Fn (1 :: nat)],
        bundled_task_queue = ([] :: nat list)\<rparr> \<noteq> 0
   \<and> AddTask (Fn 7) \<lparr>worker_threads = [Thread 0], task_queue = [Fn (1 :: nat)],
        bundled_task_queue = ([] :: nat list)\<rparr>
       = (Success, \<lparr>worker_threads = [Thread 0], task_queue = [Fn 1, Fn 7],
            bundled_task_queue = []\<rparr>)"
  using add_unavailable [of "singleton :: (nat, nat) AsyncWorkQueue" "Fn 7" "\<lambda>f n s. s" 8]
    add_unavailable [of "\<lparr>worker_threads = [Thread 0], task_queue = [Fn (1 :: nat)],
        bundled_task_queue = ([] :: nat list)\<rparr>" "Fn 7" "\<lambda>f n s. s" 8]
  by (simp add: singleton_def WorkerCount_def size_of_def)

section \<open>The split pass\<close>

lemma invoke_front_calls:
  "snd (invoke_front cb n local_queue s) = map (\<lambda>f. BundledCall f n) local_queue"
  by (induction local_queue arbitrary: s) (simp_all add: split_beta)



lemma SplitBundledTasks_not_empty:
  "bundled_task_queue s \<noteq> [] \<Longrightarrow>
   SplitBundledTasks cb s =
     invoke_front cb (max 1 (size_of (worker_threads s) div size_of (bundled_task_queue s)))
       (bundled_task_queue s) (s\<lparr>bundled_task_queue := []\<rparr>)"
  by (simp add: SplitBundledTasks_def swap_if_not_empty_def)






text \<open>
  C7: an \<^verbatim>\<open>AddBundledTask\<close> that is accepted puts the task at the back of the bundled queue
  first. If it then finds the task queue empty, its result is that of a split pass on the
  state with the task queued, and that pass invokes something; if it finds the task queue
  not empty, it returns with the task still at the back of the bundled queue and has
  invoked nothing. So the call invokes bundled tasks exactly when it found the task queue
  empty.
\<close>

theorem AddBundledTask_split:
  assumes "WorkerCount s \<noteq> 0"
  shows "(task_queue s = [] \<longrightarrow>
            AddBundledTask cb task s
              = (Success,
                 SplitBundledTasks cb (s\<lparr>bundled_task_queue := bundled_task_queue s @ [task]\<rparr>)))
       \<and> (task_queue s \<noteq> [] \<longrightarrow>
            AddBundledTask cb task s
              = (Success, s\<lparr>bundled_task_queue := bundled_task_queue s @ [task]\<rparr>, []))
       \<and> (snd (snd (AddBundledTask cb task s)) \<noteq> [] \<longleftrightarrow> task_queue s = [])"
  using assms
  by (simp add: AddBundledTask_def WorkerCount_def Empty_def SplitBundledTasks_not_empty
      invoke_front_calls Let_def)

theorem AddBundledTask_split_witness:
  "WorkerCount \<lparr>worker_threads = [Thread 0, Thread 1], task_queue = ([] :: nat std_function list),
       bundled_task_queue = [7 :: nat]\<rparr> \<noteq> 0
   \<and> AddBundledTask (\<lambda>f n s. s\<lparr>task_queue := task_queue s @ [Fn f]\<rparr>) 8
        \<lparr>worker_threads = [Thread 0, Thread 1], task_queue = ([] :: nat std_function list),
         bundled_task_queue = [7 :: nat]\<rparr>
       = (Success,
          \<lparr>worker_threads = [Thread 0, Thread 1], task_queue = [Fn 7, Fn 8],
           bundled_task_queue = []\<rparr>,
          [BundledCall 7 1, BundledCall 8 1])
   \<and> AddBundledTask (\<lambda>f n s. s\<lparr>task_queue := task_queue s @ [Fn f]\<rparr>) 8
        \<lparr>worker_threads = [Thread 0, Thread 1], task_queue = [Fn (5 :: nat)],
         bundled_task_queue = [7 :: nat]\<rparr>
       = (Success,
          \<lparr>worker_threads = [Thread 0, Thread 1], task_queue = [Fn 5],
           bundled_task_queue = [7, 8]\<rparr>,
          [])"
  using AddBundledTask_split [of "\<lparr>worker_threads = [Thread 0, Thread 1],
         task_queue = ([] :: nat std_function list), bundled_task_queue = [7 :: nat]\<rparr>"
        "\<lambda>f n s. s\<lparr>task_queue := task_queue s @ [Fn f]\<rparr>" 8]
    AddBundledTask_split [of "\<lparr>worker_threads = [Thread 0, Thread 1],
         task_queue = [Fn (5 :: nat)], bundled_task_queue = [7 :: nat]\<rparr>"
        "\<lambda>f n s. s\<lparr>task_queue := task_queue s @ [Fn f]\<rparr>" 8]
  by (simp add: WorkerCount_def size_of_def SplitBundledTasks_def swap_if_not_empty_def)

section \<open>The worker loop and shutdown\<close>

lemma WorkThread_break:
  assumes "(if Empty (task_queue s) then SplitBundledTasks cb s else (s, [])) = (s1, split_calls)"
    and "task_queue s1 = nullptr # q"
  shows "WorkThread ct cb s = Some (s1\<lparr>task_queue := q\<rparr>, split_calls)"
  by (subst WorkThread.simps) (simp add: assms)

lemma WorkThread_nullptr:
  "task_queue s = nullptr # q \<Longrightarrow> WorkThread ct cb s = Some (s\<lparr>task_queue := q\<rparr>, [])"
  by (rule WorkThread_break) (simp_all add: Empty_def)




text \<open>
  C9: once workers exist, \<^verbatim>\<open>AddTask\<close> accepts an empty function: it returns success and the
  task queue is what one round of the destructor's first loop would have made it. The
  worker that takes this item off the queue returns from its loop without invoking
  anything, while \<^verbatim>\<open>WorkerCount()\<close> stays what it was. On an idle work queue (both queues
  empty) a worker run after the call returns with the state as it was before the call.
\<close>

theorem null_task:
  assumes "WorkerCount s \<noteq> 0"
  shows "AddTask nullptr s = (Success, s\<lparr>task_queue := task_queue s @ [nullptr]\<rparr>)
       \<and> put_sentinels 0 1 (task_queue s) = task_queue (snd (AddTask nullptr s))
       \<and> (task_queue s = [] \<and> bundled_task_queue s = [] \<longrightarrow>
            WorkThread ct cb (snd (AddTask nullptr s)) = Some (s, []))
       \<and> (task_queue s' = nullptr # q \<longrightarrow>
            WorkThread ct cb s' = Some (s'\<lparr>task_queue := q\<rparr>, [])
            \<and> WorkerCount (s'\<lparr>task_queue := q\<rparr>) = WorkerCount s')"
  using assms
  by (simp add: AddTask_def WorkerCount_def put_sentinels_replicate Put_def WorkThread_nullptr)

theorem null_task_witness:
  "WorkerCount \<lparr>worker_threads = [Thread 0, Thread 1],
       task_queue = ([] :: nat std_function list), bundled_task_queue = ([] :: nat list)\<rparr> \<noteq> 0
   \<and> AddTask nullptr \<lparr>worker_threads = [Thread 0, Thread 1],
       task_queue = ([] :: nat std_function list), bundled_task_queue = ([] :: nat list)\<rparr>
       = (Success, \<lparr>worker_threads = [Thread 0, Thread 1], task_queue = [nullptr],
            bundled_task_queue = []\<rparr>)
   \<and> WorkThread (\<lambda>f s. s) (\<lambda>f n s. s)
        (snd (AddTask nullptr \<lparr>worker_threads = [Thread 0, Thread 1],
           task_queue = ([] :: nat std_function list), bundled_task_queue = ([] :: nat list)\<rparr>))
       = Some (\<lparr>worker_threads = [Thread 0, Thread 1], task_queue = [],
                bundled_task_queue = []\<rparr>, [])
   \<and> WorkThread (\<lambda>f s. s) (\<lambda>f n s. s)
        \<lparr>worker_threads = [Thread 0, Thread 1], task_queue = [nullptr, Fn (6 :: nat)],
         bundled_task_queue = ([] :: nat list)\<rparr>
       = Some (\<lparr>worker_threads = [Thread 0, Thread 1], task_queue = [Fn 6],
                bundled_task_queue = []\<rparr>, [])"
  using null_task [of "\<lparr>worker_threads = [Thread 0, Thread 1],
       task_queue = ([] :: nat std_function list), bundled_task_queue = ([] :: nat list)\<rparr>"
      "\<lambda>f s. s" "\<lambda>f n s. s"
      "\<lparr>worker_threads = [Thread 0, Thread 1], task_queue = [nullptr, Fn (6 :: nat)],
         bundled_task_queue = ([] :: nat list)\<rparr>" "[Fn 6]"]
  by (simp add: WorkerCount_def size_of_def AddTask_def Put_def)

section \<open>No bundled task is invoked twice\<close>

lemma mset_concat_pop:
  "p < length qs \<Longrightarrow> qs ! p = f # rest \<Longrightarrow>
   mset (concat qs) = add_mset f (mset (concat (qs[p := rest])))"
proof (induction qs arbitrary: p)
  case Nil
  then show ?case by simp
next
  case (Cons q qs)
  show ?case
  proof (cases p)
    case 0
    with Cons.prems show ?thesis by simp
  next
    case (Suc p')
    with Cons.prems Cons.IH [of p'] show ?thesis by simp
  qed
qed

lemma conserved_start: "conserved start"
  by (simp add: conserved_def start_def)

lemma conserved_exec: "conserved c \<Longrightarrow> conserved (exec a c)"
proof (cases a)
  case (Push task)
  assume "conserved c"
  with Push show ?thesis by (simp add: conserved_def)
next
  case Swap
  assume "conserved c"
  with Swap show ?thesis by (simp add: conserved_def swap_if_not_empty_def)
next
  case (Invoke p)
  assume c: "conserved c"
  show ?thesis
  proof (cases "p < length (local_queues c)")
    case False
    with c Invoke show ?thesis by simp
  next
    case True
    show ?thesis
    proof (cases "local_queues c ! p")
      case Nil
      with c Invoke True show ?thesis by simp
    next
      case (Cons f rest)
      from mset_concat_pop [OF True Cons] c Invoke True Cons show ?thesis
        by (simp add: conserved_def)
    qed
  qed
qed

lemma conserved_run: "conserved c \<Longrightarrow> conserved (run schedule c)"
  by (induction schedule arbitrary: c) (simp_all add: conserved_exec)

lemma distinct_count_list_le_1: "distinct xs \<Longrightarrow> count_list xs a \<le> 1"
  by (induction xs) (auto simp: count_list_0_iff)

lemma count_list_le_1_distinct: "(\<And>a. count_list ys a \<le> 1) \<Longrightarrow> distinct ys"
proof (induction ys)
  case Nil
  then show ?case by simp
next
  case (Cons y ys)
  from Cons.prems [of y] have "y \<notin> set ys"
    by (simp add: count_list_0_iff)
  moreover have "count_list ys a \<le> 1" for a
    using Cons.prems [of a] by (simp split: if_splits)
  then have "distinct ys"
    by (rule Cons.IH)
  ultimately show ?case
    by simp
qed

text \<open>
  A split pass of one thread on its own is the schedule of a swap followed by one round
  of the loop for each task it took: it empties the shared queue and invokes what was in
  it, in order.
\<close>

lemma run_invoke_all:
  "p < length (local_queues c) \<Longrightarrow> local_queues c ! p = local_queue \<Longrightarrow>
   run (replicate (length local_queue) (Invoke p)) c
     = c\<lparr>local_queues := (local_queues c)[p := []], invoked := invoked c @ local_queue\<rparr>"
proof (induction local_queue arbitrary: c)
  case Nil
  then show ?case
    by (simp add: list_update_same_conv [THEN iffD2])
next
  case (Cons f rest)
  let ?c = "c\<lparr>local_queues := (local_queues c)[p := rest], invoked := invoked c @ [f]\<rparr>"
  from Cons.prems have "exec (Invoke p) c = ?c"
    by simp
  moreover from Cons.prems have "p < length (local_queues ?c)" and "local_queues ?c ! p = rest"
    by simp_all
  then have "run (replicate (length rest) (Invoke p)) ?c
      = ?c\<lparr>local_queues := (local_queues ?c)[p := []], invoked := invoked ?c @ rest\<rparr>"
    by (rule Cons.IH)
  ultimately show ?case
    by simp
qed

lemma split_pass_schedule:
  "run (Swap # replicate (length (shared_queue c)) (Invoke (length (local_queues c)))) c
     = c\<lparr>shared_queue := [], local_queues := local_queues c @ [[]],
         invoked := invoked c @ shared_queue c\<rparr>"
proof -
  let ?c = "exec Swap c"
  have c': "?c = c\<lparr>shared_queue := [], local_queues := local_queues c @ [shared_queue c]\<rparr>"
    by (simp add: swap_if_not_empty_def)
  then have "length (local_queues c) < length (local_queues ?c)"
    and "local_queues ?c ! length (local_queues c) = shared_queue c"
    by simp_all
  then have "run (replicate (length (shared_queue c)) (Invoke (length (local_queues c)))) ?c
      = ?c\<lparr>local_queues := (local_queues ?c)[length (local_queues c) := []],
           invoked := invoked ?c @ shared_queue c\<rparr>"
    by (rule run_invoke_all)
  with c' show ?thesis
    by (simp del: exec.simps)
qed

text \<open>
  C3: in every interleaving of guarded pushes, guarded swaps and loop rounds of any number
  of split passes, started from the empty work queue, no bundled task is invoked more
  often than it was enqueued; so if every enqueued task is enqueued once, every task is
  invoked at most once.
\<close>

theorem invoked_at_most_once:
  "count_list (invoked (run schedule start)) f \<le> count_list (enqueued (run schedule start)) f
   \<and> (distinct (enqueued (run schedule start)) \<longrightarrow> distinct (invoked (run schedule start)))"
proof -
  let ?c = "run schedule start"
  have "conserved ?c"
    by (rule conserved_run [OF conserved_start])
  then have sub: "mset (invoked ?c) \<subseteq># mset (enqueued ?c)"
    by (simp add: conserved_def)
  have le: "count_list (invoked ?c) a \<le> count_list (enqueued ?c) a" for a
    using mset_subset_eq_count [OF sub, of a] by (simp add: count_mset)
  have "distinct (invoked ?c)" if d: "distinct (enqueued ?c)"
  proof (rule count_list_le_1_distinct)
    fix a
    from le [of a] distinct_count_list_le_1 [OF d, of a]
    show "count_list (invoked ?c) a \<le> 1"
      by (rule le_trans)
  qed
  with le [of f] show ?thesis
    by blast
qed

theorem invoked_at_most_once_witness:
  "distinct (enqueued (run [Push 1, Swap, Push 2, Swap, Swap, Invoke 1, Invoke 0, Invoke 0,
       Invoke 2] (start :: nat interleaving)))
   \<and> invoked (run [Push 1, Swap, Push 2, Swap, Swap, Invoke 1, Invoke 0, Invoke 0,
       Invoke 2] (start :: nat interleaving)) = [2, 1]
   \<and> distinct (invoked (run [Push 1, Swap, Push 2, Swap, Swap, Invoke 1, Invoke 0, Invoke 0,
       Invoke 2] (start :: nat interleaving)))"
  using invoked_at_most_once [of "[Push 1, Swap, Push 2, Swap, Swap, Invoke 1, Invoke 0,
       Invoke 0, Invoke 2]" "1 :: nat"]
  by (simp add: start_def swap_if_not_empty_def)

end
